theory Spec2Isabelle
  imports Main "HOL-Library.Sublist" "HOL-Library.List_Lexorder" "HOL-Library.Char_ord"
begin

section \<open>Import stages: \<open>dvc/stage/imports.py\<close>\<close>

text \<open>
  \<open>update_import\<close> works on a stage object and calls three collaborators whose code
  lives elsewhere: \<open>stage.deps[0].update(rev=rev)\<close>, \<open>stage.reproduce(jobs=jobs)\<close> and
  \<open>stage.repo.cloud.transfer(...)\<close>. Each is a parameter of the model. A collaborator
  may raise after having changed its receiver, so it returns the exception (if any)
  together with the receiver as it left it. \<open>update\<close> is a method of the dependency
  and transforms the dependency; \<open>reproduce\<close> is a method of the stage and may
  transform the whole stage, the \<open>frozen\<close> attribute included.
\<close>

datatype exn = IndexError | Raised string

record dependency =
  dep_url :: string
  dep_rev :: "string option"

record out =
  hash_info :: "string option"

record stage =
  deps :: "dependency list"
  outs :: "out list"
  frozen :: bool

type_synonym dep_update = "string option \<Rightarrow> dependency \<Rightarrow> exn option \<times> dependency"
type_synonym reproduce = "nat option \<Rightarrow> stage \<Rightarrow> exn option \<times> stage"
type_synonym transfer = "string \<Rightarrow> nat option \<Rightarrow> string option \<Rightarrow> string \<Rightarrow> exn + string"

text \<open>
  \<open>_update_import_on_remote\<close>: \<open>stage.deps[0]\<close> is read first, then the right-hand side
  \<open>transfer(...)\<close> is evaluated, and only then \<open>stage.outs[0]\<close> is indexed for the
  assignment. Indexing an empty list raises \<open>IndexError\<close>.
\<close>

definition update_import_on_remote ::
  "transfer \<Rightarrow> stage \<Rightarrow> string option \<Rightarrow> nat option \<Rightarrow> exn option \<times> stage" where
  "update_import_on_remote xfer st remote jobs =
     (case deps st of
        [] \<Rightarrow> (Some IndexError, st)
      | d # ds \<Rightarrow>
          (case xfer (dep_url d) jobs remote ''update'' of
             Inl e \<Rightarrow> (Some e, st)
           | Inr h \<Rightarrow>
               (case outs st of
                  [] \<Rightarrow> (Some IndexError, st)
                | out # rest \<Rightarrow> (None, st\<lparr>outs := out\<lparr>hash_info := Some h\<rparr> # rest\<rparr>))))"

text \<open>
  \<open>update_import\<close>: the result is the exception that leaves the function (if any) and
  the stage as the caller sees it afterwards. The \<open>finally\<close> clause runs on both
  exits of the \<open>try\<close> body and keeps the pending exception.
\<close>

definition update_import ::
  "dep_update \<Rightarrow> reproduce \<Rightarrow> transfer \<Rightarrow> stage \<Rightarrow> string option \<Rightarrow> bool \<Rightarrow>
     string option \<Rightarrow> nat option \<Rightarrow> exn option \<times> stage" where
  "update_import upd repro xfer st rev_arg to_remote remote jobs =
     (case deps st of
        [] \<Rightarrow> (Some IndexError, st)
      | d # ds \<Rightarrow>
          (case upd rev_arg d of
             (Some e, d') \<Rightarrow> (Some e, st\<lparr>deps := d' # ds\<rparr>)
           | (None, d') \<Rightarrow>
               (let st1 = st\<lparr>deps := d' # ds\<rparr>;
                    saved = frozen st1;
                    st2 = st1\<lparr>frozen := False\<rparr>;
                    (raised, st3) =
                       (if to_remote then update_import_on_remote xfer st2 remote jobs
                        else repro jobs st2)
                in (raised, st3\<lparr>frozen := saved\<rparr>))))"

section \<open>Data model of the filesystem views\<close>

text \<open>
  The filesystem views (\<open>dvc/fs/dvc.py\<close>, \<open>dvc/fs/repo.py\<close>) and the hash engine
  (\<open>dvc/objects/stage.py\<close>) are exercised by \<open>tests/unit/fs/test_dvc.py\<close>,
  \<open>tests/unit/fs/test_repo.py\<close> and \<open>tests/unit/test_external_repo.py\<close>; their own
  code is not among the sources. The definitions of this part are therefore modelled from
  the specification, and wherever a test fixes the behaviour, the test is followed.
\<close>

type_synonym name = string
type_synonym path = "name list"
type_synonym bytes = string
type_synonym digest = string

text \<open>
  Modelled from the spec: \<open>HashRecord\<close> (section 3),
  \<open>{algorithm, digest, manifest?, file_count?}\<close>. A record with no manifest is a file
  (leaf) hash, a record with a manifest is a directory.
\<close>

datatype hash_record =
  HashRecord (algorithm: string) (digest: digest)
    (manifest: "(path \<times> hash_record) list option") (file_count: "nat option")

text \<open>Modelled from the spec: the error taxonomy of section 7.\<close>

datatype fs_error =
  NotFound | ObjectMissing | ManifestInvariantViolation | AmbiguousPath | Cancelled

text \<open>
  Modelled from the spec: \<open>ObjectStore\<close> (section 4.2), content addressed by digest;
  \<open>contains\<close> and \<open>open\<close>, the latter failing with \<open>ObjectMissing\<close>.
\<close>

type_synonym object_store = "(digest \<times> bytes) list"

definition store_contains :: "object_store \<Rightarrow> hash_record \<Rightarrow> bool" where
  "store_contains st h = (map_of st (digest h) \<noteq> None)"



text \<open>The real working directory: a tree of files and directories.\<close>

datatype node = File bytes | Dir "(name \<times> node) list"

fun child :: "node \<Rightarrow> name \<Rightarrow> node option" where
  "child (File b) n = None"
| "child (Dir cs) n = map_of cs n"

fun ws_lookup :: "node \<Rightarrow> path \<Rightarrow> node option" where
  "ws_lookup w [] = Some w"
| "ws_lookup w (n # p) = (case child w n of None \<Rightarrow> None | Some c \<Rightarrow> ws_lookup c p)"

text \<open>
  Modelled from the spec: the recorded manifest tree of \<open>TrackedFileSystem\<close> (section
  4.3). The committed metadata is a list of cache entries (path, record); the tree has a
  leaf for every leaf-shaped record, a directory carrying its record for every
  directory-shaped record, with its manifest's members below it, and a directory without
  a record for every ancestor of a recorded path (\<open>test_isdir_mixed\<close>).
\<close>

type_synonym entries = "(path \<times> hash_record) list"

datatype tnode = TLeaf hash_record | TNode "hash_record option" "(name \<times> tnode) list"

fun tchildren :: "tnode \<Rightarrow> (name \<times> tnode) list" where
  "tchildren (TLeaf r) = []"
| "tchildren (TNode r cs) = cs"

fun trecord :: "tnode \<Rightarrow> hash_record option" where
  "trecord (TLeaf r) = Some r"
| "trecord (TNode r cs) = r"

fun put_child :: "name \<Rightarrow> tnode \<Rightarrow> (name \<times> tnode) list \<Rightarrow> (name \<times> tnode) list" where
  "put_child n t [] = [(n, t)]"
| "put_child n t ((m, u) # cs) =
     (if m = n then (m, t) # cs else (m, u) # put_child n t cs)"

fun insert_at :: "tnode \<Rightarrow> path \<Rightarrow> tnode \<Rightarrow> tnode" where
  "insert_at t [] new = new"
| "insert_at t (n # p) new =
     TNode (case t of TLeaf r \<Rightarrow> None | TNode r cs \<Rightarrow> r)
       (put_child n
          (insert_at (case map_of (tchildren t) n of None \<Rightarrow> TNode None [] | Some c \<Rightarrow> c) p new)
          (tchildren t))"

fun of_record :: "hash_record \<Rightarrow> tnode"
  and of_manifest :: "(path \<times> hash_record) list \<Rightarrow> tnode \<Rightarrow> tnode" where
  "of_record (HashRecord a d None c) = TLeaf (HashRecord a d None c)"
| "of_record (HashRecord a d (Some m) c) =
     of_manifest m (TNode (Some (HashRecord a d (Some m) c)) [])"
| "of_manifest [] t = t"
| "of_manifest ((q, r) # m) t = of_manifest m (insert_at t q (of_record r))"

definition tracked_tree :: "entries \<Rightarrow> tnode" where
  "tracked_tree es = of_manifest es (TNode None [])"

fun tlookup :: "tnode \<Rightarrow> path \<Rightarrow> tnode option" where
  "tlookup t [] = Some t"
| "tlookup t (n # p) =
     (case map_of (tchildren t) n of None \<Rightarrow> None | Some c \<Rightarrow> tlookup c p)"



section \<open>The tracked-only view\<close>


definition tfs_is_dir :: "entries \<Rightarrow> path \<Rightarrow> bool" where
  "tfs_is_dir es p =
     (case tlookup (tracked_tree es) p of Some (TNode r cs) \<Rightarrow> True | _ \<Rightarrow> False)"

definition tfs_is_file :: "entries \<Rightarrow> path \<Rightarrow> bool" where
  "tfs_is_file es p =
     (case tlookup (tracked_tree es) p of Some (TLeaf r) \<Rightarrow> True | _ \<Rightarrow> False)"

definition tfs_list_dir :: "entries \<Rightarrow> path \<Rightarrow> fs_error + (name \<times> hash_record option) list" where
  "tfs_list_dir es p =
     (case tlookup (tracked_tree es) p of
        Some (TNode r cs) \<Rightarrow> Inr (map (\<lambda>nc. (fst nc, trecord (snd nc))) cs)
      | _ \<Rightarrow> Inl NotFound)"




section \<open>The composite view\<close>

text \<open>
  Modelled from the spec: \<open>RepoFileSystem\<close> (section 4.4), precedence rules 2 to 4 for
  one repository: the working directory first, the tracked view as the fallback. The
  tests refine rule 3: a recorded output that is present in the working directory, in
  whatever form, hides what is recorded below it from \<open>exists\<close>, \<open>isdir\<close> and \<open>isfile\<close>
  (\<open>test_exists_isdir_isfile_dirty\<close>), while \<open>info\<close> and \<open>open\<close> fall back whenever the
  working directory has no such path (\<open>test_get_hash_cached_granular\<close>). Rule 1, the
  delegation of a path inside a nested repository, is modelled for \<open>walk\<close> only (see
  below): these definitions answer for the paths of the repository itself.
\<close>

record repo =
  workspace :: node
  recorded :: entries
  odb :: object_store

definition shadowed :: "repo \<Rightarrow> path \<Rightarrow> bool" where
  "shadowed r p =
     list_ex (\<lambda>e. prefix (fst e) p \<and> ws_lookup (workspace r) (fst e) \<noteq> None) (recorded r)"


definition repo_is_dir :: "repo \<Rightarrow> path \<Rightarrow> bool" where
  "repo_is_dir r p =
     (case ws_lookup (workspace r) p of
        Some (Dir cs) \<Rightarrow> True
      | Some (File b) \<Rightarrow> False
      | None \<Rightarrow> tfs_is_dir (recorded r) p \<and> \<not> shadowed r p)"

definition repo_is_file :: "repo \<Rightarrow> path \<Rightarrow> bool" where
  "repo_is_file r p =
     (case ws_lookup (workspace r) p of
        Some (File b) \<Rightarrow> True
      | Some (Dir cs) \<Rightarrow> False
      | None \<Rightarrow> tfs_is_file (recorded r) p \<and> \<not> shadowed r p)"




section \<open>Listings of the working directory\<close>

text \<open>
  Modelled from the spec: what a listing of the composite view shows of the working
  directory (section 4.4, \<open>include_metadata_files\<close>, and section 4.5, the marker of a
  nested repository). A directory is the root of a repository when it holds the marker
  \<open>.dvc\<close>. The tests fix the rule: \<open>.dvc\<close> and \<open>.git\<close> are never listed; the metadata
  files (\<open>*.dvc\<close>, \<open>.dvcignore\<close>) only when they are asked for; and a sub-repository root
  only when sub-repositories are traversed (\<open>test_repo_fs_no_subrepos\<close>,
  \<open>test_walk_nested_subrepos\<close>, \<open>test_subrepo_walk\<close>).
\<close>

definition is_repo_root :: "node \<Rightarrow> bool" where
  "is_repo_root n = (child n ''.dvc'' \<noteq> None)"

definition is_dvcfile :: "name \<Rightarrow> bool" where
  "is_dvcfile n = (prefix (rev ''.dvc'') (rev n) \<or> n = ''.dvcignore'')"

definition listed :: "bool \<Rightarrow> bool \<Rightarrow> name \<times> node \<Rightarrow> bool" where
  "listed sub dvcf e =
     (fst e \<noteq> ''.dvc'' \<and> fst e \<noteq> ''.git'' \<and>
      (dvcf \<or> \<not> is_dvcfile (fst e)) \<and>
      (sub \<or> \<not> is_repo_root (snd e)))"

section \<open>The hash engine\<close>







text \<open>
  In the composite view a path that is present in the working directory has no recorded
  hash in \<open>info\<close>, so a file is hashed from its current bytes and a directory is built
  from the merged listing of its children: the listed entries of the working directory
  (without metadata files and nested repositories, \<open>test_get_hash_mixed_dir\<close>), and the
  recorded entries of the same directory that the working directory lacks. The recorded
  side is the companion \<open>t\<close>; there is none at or below a recorded output that is present
  in the working directory, whose listing is the working directory's alone
  (\<open>test_walk_dirty_cached_dir\<close>, \<open>test_walk_dirty\<close>).
\<close>

definition companion :: "tnode option \<Rightarrow> name \<Rightarrow> tnode option" where
  "companion t n =
     (case t of
        None \<Rightarrow> None
      | Some u \<Rightarrow>
          (case map_of (tchildren u) n of
             Some (TNode None cs) \<Rightarrow> Some (TNode None cs)
           | _ \<Rightarrow> None))"

definition tracked_only :: "tnode option \<Rightarrow> (name \<times> node) list \<Rightarrow> (name \<times> tnode) list" where
  "tracked_only t cs =
     (case t of
        None \<Rightarrow> []
      | Some u \<Rightarrow> filter (\<lambda>e. map_of cs (fst e) = None) (tchildren u))"




section \<open>Well-formed metadata and the scenarios of the tests\<close>
















section \<open>Sub-repositories and traversal\<close>

text \<open>
  Modelled from the spec: \<open>SubrepoRegistry\<close> (section 4.5). A child repository context
  is constructed by the \<open>repo_factory\<close> capability and cached under its boundary path;
  \<open>factory_calls\<close> is the log of the invocations of the factory, which the tests observe
  with a spy (\<open>test_hook_is_called\<close>). The factory is total: a construction that fails
  is not modelled.
\<close>

record repo_context =
  ctx_root :: path
  ctx_recorded :: entries
  ctx_odb :: object_store

record registry =
  contexts :: "(path \<times> repo_context) list"
  factory_calls :: "path list"

definition get_repo :: "(path \<Rightarrow> repo_context) \<Rightarrow> path \<Rightarrow> registry \<Rightarrow> repo_context \<times> registry" where
  "get_repo factory q reg =
     (case map_of (contexts reg) q of
        Some c \<Rightarrow> (c, reg)
      | None \<Rightarrow>
          (factory q,
           \<lparr>contexts = (q, factory q) # contexts reg,
            factory_calls = factory_calls reg @ [q]\<rparr>))"

text \<open>
  Modelled from the spec: the parameters of \<open>RepoFileSystem\<close> and of \<open>walk\<close> (section
  4.4): \<open>subrepos\<close> (traverse sub-repositories), \<open>dvcfiles\<close> (include the metadata files
  in listings) and the factory. An entry of the working directory is visible to a walk
  when the listing rule admits it under these parameters.
\<close>

record walk_cfg =
  subrepos :: bool
  dvcfiles :: bool
  repo_factory :: "path \<Rightarrow> repo_context"

definition visible :: "walk_cfg \<Rightarrow> name \<times> node \<Rightarrow> bool" where
  "visible cfg e = listed (subrepos cfg) (dvcfiles cfg) e"

text \<open>
  Modelled from the spec: \<open>walk\<close> (section 4.4), top-down, as the list of the triples
  (directory, subdirectories, files) that draining the walk yields, together with the
  registry as the walk leaves it. The listing of a directory merges the visible entries
  of the working directory with the recorded entries that the working directory lacks.
  Entering a sub-repository root asks the registry for its context and continues with
  that repository's recorded tree.
\<close>

type_synonym triple = "path \<times> name list \<times> name list"

fun is_dir_node :: "node \<Rightarrow> bool" where
  "is_dir_node (Dir cs) = True"
| "is_dir_node (File b) = False"

fun is_dir_tnode :: "tnode \<Rightarrow> bool" where
  "is_dir_tnode (TNode r cs) = True"
| "is_dir_tnode (TLeaf r) = False"

definition listing :: "walk_cfg \<Rightarrow> tnode option \<Rightarrow> (name \<times> node) list \<Rightarrow> name list \<times> name list" where
  "listing cfg t cs =
     (let vis = filter (visible cfg) cs;
          rec = tracked_only t vis
      in (map fst (filter (\<lambda>e. is_dir_node (snd e)) vis) @
          map fst (filter (\<lambda>e. is_dir_tnode (snd e)) rec),
          map fst (filter (\<lambda>e. \<not> is_dir_node (snd e)) vis) @
          map fst (filter (\<lambda>e. \<not> is_dir_tnode (snd e)) rec)))"

fun walk_tnode :: "path \<Rightarrow> tnode \<Rightarrow> triple list"
  and walk_tchildren :: "path \<Rightarrow> (name \<times> tnode) list \<Rightarrow> triple list" where
  "walk_tnode p (TLeaf r) = []"
| "walk_tnode p (TNode r cs) =
     (p, map fst (filter (\<lambda>e. is_dir_tnode (snd e)) cs),
         map fst (filter (\<lambda>e. \<not> is_dir_tnode (snd e)) cs)) # walk_tchildren p cs"
| "walk_tchildren p [] = []"
| "walk_tchildren p ((n, c) # cs) = walk_tnode (p @ [n]) c @ walk_tchildren p cs"

definition enter :: "walk_cfg \<Rightarrow> path \<Rightarrow> tnode option \<Rightarrow> name \<Rightarrow> node \<Rightarrow> registry \<Rightarrow> tnode option \<times> registry" where
  "enter cfg p t n c reg =
     (if is_repo_root c then
        (case get_repo (repo_factory cfg) (p @ [n]) reg of
           (ctx, reg') \<Rightarrow> (Some (tracked_tree (ctx_recorded ctx)), reg'))
      else (companion t n, reg))"

fun walk_node :: "walk_cfg \<Rightarrow> path \<Rightarrow> tnode option \<Rightarrow> node \<Rightarrow> registry \<Rightarrow> triple list \<times> registry"
  and walk_children ::
    "walk_cfg \<Rightarrow> path \<Rightarrow> tnode option \<Rightarrow> (name \<times> node) list \<Rightarrow> registry \<Rightarrow> triple list \<times> registry" where
  "walk_node cfg p t (File b) reg = ([], reg)"
| "walk_node cfg p t (Dir cs) reg =
     (case walk_children cfg p t cs reg of
        (ts, reg') \<Rightarrow>
          ((p, listing cfg t cs) # ts @
             walk_tchildren p (tracked_only t (filter (visible cfg) cs)), reg'))"
| "walk_children cfg p t [] reg = ([], reg)"
| "walk_children cfg p t ((n, c) # cs) reg =
     (if visible cfg (n, c) then
        (case enter cfg p t n c reg of
           (t', reg1) \<Rightarrow>
             (case walk_node cfg (p @ [n]) t' c reg1 of
                (ts, reg2) \<Rightarrow>
                  (case walk_children cfg p t cs reg2 of
                     (ts', reg3) \<Rightarrow> (ts @ ts', reg3))))
      else walk_children cfg p t cs reg)"

text \<open>
  The boundary paths of the sub-repositories that a walk meets: the visible
  sub-repository roots of the tree, nested ones included.
\<close>

fun boundaries :: "walk_cfg \<Rightarrow> path \<Rightarrow> node \<Rightarrow> path list"
  and boundaries_children :: "walk_cfg \<Rightarrow> path \<Rightarrow> (name \<times> node) list \<Rightarrow> path list" where
  "boundaries cfg p (File b) = []"
| "boundaries cfg p (Dir cs) = boundaries_children cfg p cs"
| "boundaries_children cfg p [] = []"
| "boundaries_children cfg p ((n, c) # cs) =
     (if visible cfg (n, c) then
        (if is_repo_root c then [p @ [n]] else []) @ boundaries cfg (p @ [n]) c
      else []) @ boundaries_children cfg p cs"

definition empty_registry :: registry where
  "empty_registry = \<lparr>contexts = [], factory_calls = []\<rparr>"

text \<open>
  What the registry maintains: at most one cached context per boundary path, no path in
  the log of factory calls twice, and every logged path cached. \<open>reg_step\<close> relates the
  registry before and after an operation that crosses the boundaries \<open>B\<close>.
\<close>

definition reg_keys :: "registry \<Rightarrow> path set" where
  "reg_keys reg = fst ` set (contexts reg)"

definition reg_inv :: "registry \<Rightarrow> bool" where
  "reg_inv reg =
     (distinct (map fst (contexts reg)) \<and> distinct (factory_calls reg) \<and>
      set (factory_calls reg) \<subseteq> reg_keys reg)"

definition reg_step :: "registry \<Rightarrow> registry \<Rightarrow> path set \<Rightarrow> bool" where
  "reg_step reg reg' B =
     (reg_keys reg' = reg_keys reg \<union> B \<and>
      (reg_inv reg \<longrightarrow> reg_inv reg') \<and>
      set (factory_calls reg') = set (factory_calls reg) \<union> (B - reg_keys reg) \<and>
      prefix (factory_calls reg) (factory_calls reg'))"

text \<open>
  \<open>test_repo_fs_no_subrepos\<close>: \<open>dir/repo.txt\<close> committed, \<open>lorem\<close> tracked, and the
  sub-repository \<open>dir/repo\<close> with \<open>foo\<close>, \<open>dir1/bar\<close> tracked and \<open>ipsum\<close> committed;
  the composite view is built with \<open>subrepos=False\<close> and walked with \<open>dvcfiles=True\<close>.
\<close>

definition dvc_marker :: "name \<times> node" where
  "dvc_marker = (''.dvc'', Dir [(''config'', File ''''), (''.gitignore'', File ''/cache'')])"



text \<open>
  \<open>test_hook_is_called\<close>: six sub-repositories, \<open>subrepo6\<close> nested in \<open>subrepo5\<close> and
  two of them below the plain directory \<open>dir\<close>; every repository has \<open>foo\<close> committed
  and \<open>bar\<close> tracked.
\<close>

definition subrepo_dir :: node where
  "subrepo_dir =
     Dir [dvc_marker, (''foo'', File ''foo''), (''bar'', File ''bar''),
          (''bar.dvc'', File ''outs: md5 37b51d194a7513e45b56f6524f2d51f2 path bar''),
          (''.gitignore'', File ''/bar'')]"

definition hook_workspace :: node where
  "hook_workspace =
     Dir [dvc_marker, (''.git'', Dir []), (''foo'', File ''foo''), (''bar'', File ''bar''),
          (''bar.dvc'', File ''outs: md5 37b51d194a7513e45b56f6524f2d51f2 path bar''),
          (''.gitignore'', File ''/bar''),
          (''subrepo1'', subrepo_dir), (''subrepo2'', subrepo_dir),
          (''dir'', Dir [(''subrepo3'', subrepo_dir), (''subrepo4'', subrepo_dir)]),
          (''subrepo5'',
             Dir [dvc_marker, (''foo'', File ''foo''), (''bar'', File ''bar''),
                  (''bar.dvc'', File ''outs: md5 37b51d194a7513e45b56f6524f2d51f2 path bar''),
                  (''.gitignore'', File ''/bar''), (''subrepo6'', subrepo_dir)])]"

definition bar_entries :: entries where
  "bar_entries = [([''bar''], HashRecord ''md5'' ''37b51d194a7513e45b56f6524f2d51f2'' None None)]"

definition tests_factory :: "path \<Rightarrow> repo_context" where
  "tests_factory q =
     \<lparr>ctx_root = q, ctx_recorded = bar_entries,
      ctx_odb = [(''37b51d194a7513e45b56f6524f2d51f2'', ''bar'')]\<rparr>"

definition hook_cfg :: walk_cfg where
  "hook_cfg = \<lparr>subrepos = True, dvcfiles = False, repo_factory = tests_factory\<rparr>"



section \<open>Lemmas about the recorded manifest tree\<close>










section \<open>Properties of the composite view\<close>



section \<open>Properties of import stages\<close>

text \<open>
  Claim C10. For every stage and every behaviour of the collaborators,
  \<open>update_import\<close> leaves \<open>stage.frozen\<close> equal to its value before the call, whether
  the call returns or raises (in \<open>deps[0]\<close>, in the dependency's update, in the
  reproduction or in the remote transfer). The flag is cleared for the duration of
  the update: the reproduction only ever sees a stage whose \<open>frozen\<close> is \<open>False\<close>, so
  running it on the explicitly unfrozen stage gives the same result.
\<close>

theorem update_import_restores_frozen:
  "frozen (snd (update_import upd repro xfer st rev_arg to_remote remote jobs)) = frozen st
   \<and> update_import upd (\<lambda>j s. repro j (s\<lparr>frozen := False\<rparr>)) xfer st rev_arg to_remote remote jobs
       = update_import upd repro xfer st rev_arg to_remote remote jobs"
  by (simp add: update_import_def Let_def split: list.split prod.split option.split)


section \<open>Properties of the tracked-only view\<close>



section \<open>Properties of \<open>isdvc\<close>\<close>




section \<open>Properties of \<open>info\<close> and of the hash engine\<close>







section \<open>Properties of directory hashes\<close>

















section \<open>Properties of the sub-repository registry\<close>

lemma reg_step_refl: "reg_step reg reg {}"
  by (simp add: reg_step_def)

lemma reg_step_trans:
  "reg_step reg reg1 B1 \<Longrightarrow> reg_step reg1 reg2 B2 \<Longrightarrow> reg_step reg reg2 (B1 \<union> B2)"
  unfolding reg_step_def by (auto dest: prefix_order.trans)

lemma get_repo_step:
  assumes "get_repo f q reg = (c, reg')"
  shows "reg_step reg reg' {q}"
proof (cases "map_of (contexts reg) q")
  case None
  then have nk: "q \<notin> reg_keys reg" by (simp add: reg_keys_def map_of_eq_None_iff)
  from None assms have r: "reg' = \<lparr>contexts = (q, f q) # contexts reg,
      factory_calls = factory_calls reg @ [q]\<rparr>"
    by (auto simp: get_repo_def)
  show ?thesis using nk unfolding r reg_step_def reg_inv_def reg_keys_def by auto
next
  case (Some a)
  then have k: "q \<in> reg_keys reg"
    by (metis map_of_eq_None_iff option.distinct(1) reg_keys_def)
  from Some assms have "reg' = reg" by (simp add: get_repo_def)
  then show ?thesis using k by (auto simp: reg_step_def)
qed

lemma enter_step:
  assumes "enter cfg p t n c reg = (t', reg')"
  shows "reg_step reg reg' (if is_repo_root c then {p @ [n]} else {})"
proof (cases "is_repo_root c")
  case True
  obtain ctx r1 where g: "get_repo (repo_factory cfg) (p @ [n]) reg = (ctx, r1)"
    by (cases "get_repo (repo_factory cfg) (p @ [n]) reg")
  with True assms have "reg' = r1" by (simp add: enter_def)
  then show ?thesis using get_repo_step[OF g] True by simp
next
  case False
  with assms have "reg' = reg" by (simp add: enter_def)
  then show ?thesis using False by (simp add: reg_step_refl)
qed

lemma walk_registry:
  "walk_node cfg p t n reg = (ts, reg') \<Longrightarrow> reg_step reg reg' (set (boundaries cfg p n))"
  "walk_children cfg p t cs reg = (ts, reg') \<Longrightarrow>
     reg_step reg reg' (set (boundaries_children cfg p cs))"
proof (induction cfg p t n reg and cfg p t cs reg arbitrary: ts reg' and ts reg'
    rule: walk_node_walk_children.induct)
  case (1 cfg p t b reg)
  then show ?case by (simp add: reg_step_refl)
next
  case (2 cfg p t cs reg)
  then show ?case by (auto split: prod.splits)
next
  case (3 cfg p t reg)
  then show ?case by (simp add: reg_step_refl)
next
  case (4 cfg p t n c cs reg)
  show ?case
  proof (cases "visible cfg (n, c)")
    case False
    then show ?thesis using 4 by simp
  next
    case True
    obtain t' reg1 where e: "enter cfg p t n c reg = (t', reg1)"
      by (cases "enter cfg p t n c reg")
    obtain ts1 reg2 where w: "walk_node cfg (p @ [n]) t' c reg1 = (ts1, reg2)"
      by (cases "walk_node cfg (p @ [n]) t' c reg1")
    obtain ts2 reg3 where k: "walk_children cfg p t cs reg2 = (ts2, reg3)"
      by (cases "walk_children cfg p t cs reg2")
    from "4.prems" True e w k have r: "reg' = reg3" by simp
    have s1: "reg_step reg reg1 (if is_repo_root c then {p @ [n]} else {})"
      by (rule enter_step[OF e])
    have s2: "reg_step reg1 reg2 (set (boundaries cfg (p @ [n]) c))"
      using "4.IH"(1)[OF True e[symmetric] w] .
    have s3: "reg_step reg2 reg3 (set (boundaries_children cfg p cs))"
      using "4.IH"(2)[OF True e[symmetric] w[symmetric] k] .
    have "reg_step reg reg3
        (((if is_repo_root c then {p @ [n]} else {}) \<union> set (boundaries cfg (p @ [n]) c))
          \<union> set (boundaries_children cfg p cs))"
      by (rule reg_step_trans[OF reg_step_trans[OF s1 s2] s3])
    then show ?thesis using True r by (cases "is_repo_root c") (simp_all add: Un_assoc)
  qed
qed

lemma reg_inv_empty:
  "reg_inv empty_registry" "reg_keys empty_registry = {}" "factory_calls empty_registry = []"
  by (simp_all add: reg_inv_def reg_keys_def empty_registry_def)

lemma distinct_same_set_prefix:
  assumes "prefix xs ys" "distinct ys" "set ys = set xs"
  shows "ys = xs"
proof -
  from assms(1) obtain zs where ys: "ys = xs @ zs" by (auto simp: prefix_def)
  have "zs = []"
  proof (cases zs)
    case (Cons z zs')
    with assms(2) ys have "z \<notin> set xs" by simp
    moreover from assms(3) ys Cons have "z \<in> set xs" by auto
    ultimately show ?thesis by simp
  qed simp
  then show ?thesis using ys by simp
qed

lemma walk_from_empty_registry:
  assumes "walk_node cfg p t n empty_registry = (ts, reg)"
  shows "reg_inv reg" "reg_keys reg = set (boundaries cfg p n)"
    "set (factory_calls reg) = set (boundaries cfg p n)"
proof -
  from walk_registry(1)[OF assms]
  have s1: "reg_step empty_registry reg (set (boundaries cfg p n))" .
  show "reg_inv reg" using s1 reg_inv_empty(1) unfolding reg_step_def by blast
  show "reg_keys reg = set (boundaries cfg p n)"
    using s1 unfolding reg_step_def reg_inv_empty(2) by simp
  show "set (factory_calls reg) = set (boundaries cfg p n)"
    using s1 unfolding reg_step_def reg_inv_empty(2,3) by simp
qed

lemma walk_again_no_calls:
  assumes "reg_inv reg" "set (boundaries cfg p n) \<subseteq> reg_keys reg"
    and "walk_node cfg p t n reg = (ts', reg')"
  shows "factory_calls reg' = factory_calls reg"
proof -
  from walk_registry(1)[OF assms(3)]
  have s2: "reg_step reg reg' (set (boundaries cfg p n))" .
  have inv': "reg_inv reg'" using s2 assms(1) unfolding reg_step_def by blast
  have pre: "prefix (factory_calls reg) (factory_calls reg')"
    using s2 unfolding reg_step_def by blast
  have "set (factory_calls reg') =
      set (factory_calls reg) \<union> (set (boundaries cfg p n) - reg_keys reg)"
    using s2 unfolding reg_step_def by blast
  then have calls': "set (factory_calls reg') = set (factory_calls reg)"
    using assms(2) by blast
  have d': "distinct (factory_calls reg')" using inv' unfolding reg_inv_def by blast
  show ?thesis by (rule distinct_same_set_prefix[OF pre d' calls'])
qed

lemma get_repo_cached:
  assumes "q \<in> reg_keys reg"
  shows "snd (get_repo f q reg) = reg"
proof -
  from assms have "map_of (contexts reg) q \<noteq> None"
    by (simp add: map_of_eq_None_iff reg_keys_def)
  then show ?thesis by (auto simp: get_repo_def)
qed

text \<open>
  Claim C7. Draining a walk that starts with an empty registry invokes the factory
  exactly once for every sub-repository boundary path of the tree, nested ones included
  (the log has no duplicate, its paths are the boundary paths, and its length is their
  number), and the registry then holds exactly one context per boundary path. Revisits
  construct nothing: a second walk over the same tree with the resulting registry
  leaves the log as it is, and so does a query for any boundary already crossed.
\<close>

theorem walk_constructs_each_boundary_once:
  assumes "walk_node cfg p t n empty_registry = (ts, reg)"
    and "walk_node cfg p t n reg = (ts', reg')"
  shows "distinct (factory_calls reg) \<and>
         set (factory_calls reg) = set (boundaries cfg p n) \<and>
         length (factory_calls reg) = card (set (boundaries cfg p n)) \<and>
         distinct (map fst (contexts reg)) \<and>
         fst ` set (contexts reg) = set (boundaries cfg p n) \<and>
         factory_calls reg' = factory_calls reg \<and>
         (q \<in> set (boundaries cfg p n) \<longrightarrow> snd (get_repo (repo_factory cfg) q reg) = reg)"
proof -
  note w = walk_from_empty_registry[OF assms(1)]
  have d: "distinct (factory_calls reg)" and dk: "distinct (map fst (contexts reg))"
    using w(1) unfolding reg_inv_def by blast+
  have len: "length (factory_calls reg) = card (set (boundaries cfg p n))"
    using distinct_card[OF d] w(3) by simp
  have keys: "fst ` set (contexts reg) = set (boundaries cfg p n)"
    using w(2) unfolding reg_keys_def .
  have same: "factory_calls reg' = factory_calls reg"
    by (rule walk_again_no_calls[OF w(1) _ assms(2)]) (simp add: w(2))
  have cached: "q \<in> set (boundaries cfg p n) \<longrightarrow>
      snd (get_repo (repo_factory cfg) q reg) = reg"
    using get_repo_cached[of q reg] w(2) by blast
  show ?thesis
    by (intro conjI) (rule d w(3) len dk keys same cached)+
qed

lemma hook_walk_calls:
  "factory_calls (snd (walk_node hook_cfg [] (Some (tracked_tree bar_entries)) hook_workspace
       empty_registry)) =
     [[''subrepo1''], [''subrepo2''], [''dir'', ''subrepo3''], [''dir'', ''subrepo4''],
      [''subrepo5''], [''subrepo5'', ''subrepo6'']]"
  by code_simp

text \<open>
  \<open>test_hook_is_called\<close>: the spy counts six calls, one per sub-repository, and a second
  drain adds none.
\<close>

theorem walk_constructs_each_boundary_once_witness:
  "factory_calls (snd (walk_node hook_cfg [] (Some (tracked_tree bar_entries)) hook_workspace
       empty_registry)) =
     [[''subrepo1''], [''subrepo2''], [''dir'', ''subrepo3''], [''dir'', ''subrepo4''],
      [''subrepo5''], [''subrepo5'', ''subrepo6'']] \<and>
   length (factory_calls (snd (walk_node hook_cfg [] (Some (tracked_tree bar_entries))
       hook_workspace empty_registry))) = 6 \<and>
   factory_calls (snd (walk_node hook_cfg [] (Some (tracked_tree bar_entries)) hook_workspace
       (snd (walk_node hook_cfg [] (Some (tracked_tree bar_entries)) hook_workspace
          empty_registry)))) =
     [[''subrepo1''], [''subrepo2''], [''dir'', ''subrepo3''], [''dir'', ''subrepo4''],
      [''subrepo5''], [''subrepo5'', ''subrepo6'']]"
proof -
  let ?w1 = "walk_node hook_cfg [] (Some (tracked_tree bar_entries)) hook_workspace empty_registry"
  let ?w2 = "walk_node hook_cfg [] (Some (tracked_tree bar_entries)) hook_workspace (snd ?w1)"
  have a: "?w1 = (fst ?w1, snd ?w1)" "?w2 = (fst ?w2, snd ?w2)" by simp_all
  from walk_constructs_each_boundary_once[OF a, of "[''subrepo1'']"]
  have "factory_calls (snd ?w2) = factory_calls (snd ?w1)" by blast
  then show ?thesis using hook_walk_calls by simp
qed

section \<open>Properties of \<open>walk\<close> without sub-repository traversal\<close>










end
